theory Spec2Isabelle
  imports Main "HOL-Library.Word"
begin

section \<open>Styles, style distance and fakery (FontFamily.cpp)\<close>

text \<open>
  Modelled from the spec: the declaration of \<^verbatim>\<open>FontStyle\<close>, whose header is not among
  the sources. A style is a pair of an integer weight (an unsigned value, nominally within
  1..1000) and a slant that is either upright or italic; two styles are equal when both
  components are equal. The weight is kept as a natural number and converted to
  \<open>int\<close> wherever the C++ promotes it to \<^verbatim>\<open>int\<close> for arithmetic.
\<close>

datatype Slant = UPRIGHT | ITALIC

record FontStyle =
  weight :: nat
  slant :: Slant

text \<open>
  Modelled from the spec: the declaration of \<^verbatim>\<open>FontFakery\<close>, whose header is not among
  the sources. It carries the two flags that \<^verbatim>\<open>computeFakery\<close> passes to its
  constructor; the default-constructed value is the neutral one, with both flags off.
\<close>

record FontFakery =
  isFakeBold :: bool
  isFakeItalic :: bool

definition FontFakery_default :: FontFakery where
  "FontFakery_default = \<lparr>isFakeBold = False, isFakeItalic = False\<rparr>"

text \<open>
  \<^verbatim>\<open>computeMatch\<close>, lines 91-98. The early return on equal styles is kept; the
  division is the C++ integer division on non-negative operands.
\<close>

definition computeMatch :: "FontStyle \<Rightarrow> FontStyle \<Rightarrow> int" where
  "computeMatch style1 style2 =
     (if style1 = style2 then 0
      else
        let score = \<bar>int (weight style1) div 100 - int (weight style2) div 100\<bar>
        in if slant style1 \<noteq> slant style2 then score + 2 else score)"

text \<open>\<^verbatim>\<open>computeFakery\<close>, lines 100-108. The weight difference is a signed subtraction.\<close>

definition computeFakery :: "FontStyle \<Rightarrow> FontStyle \<Rightarrow> FontFakery" where
  "computeFakery wanted actual =
     (let isFakeBold' = (int (weight wanted) \<ge> 600
                          \<and> int (weight wanted) - int (weight actual) \<ge> 200);
          isFakeItalic' = (slant wanted = ITALIC \<and> slant actual = UPRIGHT)
      in \<lparr>isFakeBold = isFakeBold', isFakeItalic = isFakeItalic'\<rparr>)"

section \<open>The sparse bit set\<close>

type_synonym u8 = "8 word"
type_synonym u16 = "16 word"
type_synonym u32 = "32 word"

text \<open>
  Failures that the C++ would show as an out-of-bounds read, a null dereference or a
  rejected buffer are values of this type.
\<close>

datatype error = OutOfBounds | NullDereference | Malformed

text \<open>
  Modelled from the spec: the constants of the missing class \<^verbatim>\<open>SparseBitSet\<close>, of which
  only the unit test and the uses in FontFamily.cpp are among the sources. The spec fixes
  neither the page size, nor the exact domain maximum, nor the format version, so they are
  parameters of the model.
\<close>

record layout =
  PAGE_SIZE :: nat
  DOMAIN_MAX :: nat
  FORMAT_VERSION :: nat

text \<open>
  Modelled from the spec: the missing data layout of \<^verbatim>\<open>SparseBitSet\<close>. The page-index
  table has one entry per page, either the sentinel for a page that is entirely unset
  (\<open>None\<close>) or the offset of the page's bits in the packed bit array (\<open>Some off\<close>, counted
  in bytes); the packed bit array holds eight bits per byte, lowest bit first.
\<close>

record SparseBitSet =
  indices :: "nat option list"
  bitmaps :: "u8 list"

text \<open>Modelled from the spec: the missing default constructor; the all-clear set of minimal size.\<close>

definition SparseBitSet_empty :: SparseBitSet where
  "SparseBitSet_empty = \<lparr>indices = [], bitmaps = []\<rparr>"

text \<open>
  Modelled from the spec: the missing \<^verbatim>\<open>SparseBitSet::get\<close>. The page index is the code
  point divided by the page size; a code point at or beyond the domain maximum, a page
  beyond the table, and a sentinel entry all answer false; otherwise the single bit of the
  page is read. A read past the end of the bit array is reported, never performed.
\<close>

definition get :: "layout \<Rightarrow> SparseBitSet \<Rightarrow> u32 \<Rightarrow> error + bool" where
  "get g bs codepoint =
     (let c = unat codepoint; page = c div PAGE_SIZE g
      in if c \<ge> DOMAIN_MAX g then Inr False
         else if page \<ge> length (indices bs) then Inr False
         else case indices bs ! page of
                None \<Rightarrow> Inr False
              | Some off \<Rightarrow>
                  let index = c mod PAGE_SIZE g; k = off + index div 8
                  in if k < length (bitmaps bs) then Inr (bit (bitmaps bs ! k) (index mod 8))
                     else Inl OutOfBounds)"

text \<open>
  Modelled from the spec: the constraints on the constants of the missing class. Pages are
  not empty and hold whole bytes, and the domain lies within the 32-bit code points, so
  that every length and offset fits a 32-bit field of the serialized form.
\<close>

definition layout_ok :: "layout \<Rightarrow> bool" where
  "layout_ok g \<longleftrightarrow>
     0 < PAGE_SIZE g \<and> 8 dvd PAGE_SIZE g \<and> PAGE_SIZE g \<le> 2 ^ 32
     \<and> DOMAIN_MAX g \<le> 2 ^ 32 \<and> FORMAT_VERSION g < 2 ^ 32"

text \<open>
  Modelled from the spec: the reading of the constructor's input, a flat sequence of
  alternating start and end values of half-open ranges. A value lies in some range when it
  is at or above a start and below the end that follows it.
\<close>

fun in_ranges :: "nat list \<Rightarrow> nat \<Rightarrow> bool" where
  "in_ranges (s # e # rest) c = ((s \<le> c \<and> c < e) \<or> in_ranges rest c)"
| "in_ranges rest c = False"

text \<open>Modelled from the spec: the same membership, for 32-bit values.\<close>

definition inRanges :: "u32 list \<Rightarrow> u32 \<Rightarrow> bool" where
  "inRanges ranges c = in_ranges (map unat ranges) (unat c)"

text \<open>
  Modelled from the spec: the bit that the missing constructor stores for a position. The
  set represents membership within the domain only, so the bit is on when the position is
  below the domain maximum and lies in a range.
\<close>

definition bit_at :: "layout \<Rightarrow> nat list \<Rightarrow> nat \<Rightarrow> bool" where
  "bit_at g rs n \<longleftrightarrow> n < DOMAIN_MAX g \<and> in_ranges rs n"

text \<open>
  Modelled from the spec: one byte of the packed bits of a page, holding the bits of eight
  consecutive positions, lowest bit first.
\<close>

definition page_byte :: "layout \<Rightarrow> nat list \<Rightarrow> nat \<Rightarrow> nat \<Rightarrow> u8" where
  "page_byte g rs page k =
     horner_sum of_bool 2 (map (\<lambda>j. bit_at g rs (page * PAGE_SIZE g + 8 * k + j)) [0..<8])"

text \<open>Modelled from the spec: the packed bits of a whole page.\<close>

definition page_bytes :: "layout \<Rightarrow> nat list \<Rightarrow> nat \<Rightarrow> u8 list" where
  "page_bytes g rs page = map (page_byte g rs page) [0..<PAGE_SIZE g div 8]"

text \<open>
  Modelled from the spec: the page table and the bit array for a list of pages. The table
  entry of a page with no bit on is the sentinel; the entry of any other page is the offset
  at which its bytes are appended to the bit array, which so far holds \<open>n\<close> bytes.
\<close>

fun build_pages :: "layout \<Rightarrow> nat list \<Rightarrow> nat list \<Rightarrow> nat \<Rightarrow> nat option list \<times> u8 list" where
  "build_pages g rs [] n = ([], [])"
| "build_pages g rs (p # ps) n =
     (let bytes = page_bytes g rs p
      in if list_all (\<lambda>b. b = 0) bytes
         then (case build_pages g rs ps n of (ix, bm) \<Rightarrow> (None # ix, bm))
         else (case build_pages g rs ps (n + length bytes) of
                 (ix, bm) \<Rightarrow> (Some n # ix, bytes @ bm)))"

text \<open>
  Modelled from the spec: the missing constructor from a buffer of ranges and their count.
  With no range the result is the empty set of minimal size. Otherwise the table reaches
  up to the page of the last range end, or of the domain maximum when that is smaller. The
  buffer holds \<open>2 * nRanges\<close> values, as the spec requires of the caller.
\<close>

definition SparseBitSet_new :: "layout \<Rightarrow> u32 list \<Rightarrow> nat \<Rightarrow> SparseBitSet" where
  "SparseBitSet_new g ranges nRanges =
     (if nRanges = 0 then SparseBitSet_empty
      else
        let rs = map unat (take (2 * nRanges) ranges);
            maxVal = min (last rs) (DOMAIN_MAX g);
            nPages = (maxVal + PAGE_SIZE g - 1) div PAGE_SIZE g
        in case build_pages g rs [0..<nPages] 0 of
             (ix, bm) \<Rightarrow> \<lparr>indices = ix, bitmaps = bm\<rparr>)"

text \<open>
  Modelled from the spec: the encoding of one field of the serialized form. The spec names
  the fields and not their widths: each header field and each table entry is taken as 32
  bits, lowest byte first.
\<close>

definition le32 :: "nat \<Rightarrow> u8 list" where
  "le32 n = [of_nat n, of_nat (n div 256), of_nat (n div 65536), of_nat (n div 16777216)]"

text \<open>Modelled from the spec: the decoding of one 32-bit field.\<close>

fun rd32 :: "u8 list \<Rightarrow> nat" where
  "rd32 [b0, b1, b2, b3] = unat b0 + 256 * (unat b1 + 256 * (unat b2 + 256 * unat b3))"
| "rd32 bytes = 0"

text \<open>
  Modelled from the spec: the encoding of a page-table entry; the sentinel is the field
  with all bits on.
\<close>

definition enc_entry :: "nat option \<Rightarrow> u8 list" where
  "enc_entry e = le32 (case e of None \<Rightarrow> 4294967295 | Some off \<Rightarrow> off)"

text \<open>Modelled from the spec: the decoding of a page-table entry.\<close>

definition dec_entry :: "u8 list \<Rightarrow> nat option" where
  "dec_entry bytes = (let n = rd32 bytes in if n = 4294967295 then None else Some n)"

text \<open>Modelled from the spec: the decoding of a page table of \<open>n\<close> entries.\<close>

fun dec_table :: "nat \<Rightarrow> u8 list \<Rightarrow> nat option list" where
  "dec_table 0 bytes = []"
| "dec_table (Suc n) bytes = dec_entry (take 4 bytes) # dec_table n (drop 4 bytes)"

text \<open>
  Modelled from the spec: the missing serialization. The blob is the format version, the
  length of the page table, the length of the bit array, the table entries and the packed
  bits, in this order.
\<close>

definition serialize :: "layout \<Rightarrow> SparseBitSet \<Rightarrow> u8 list" where
  "serialize g bs =
     le32 (FORMAT_VERSION g) @ le32 (length (indices bs)) @ le32 (length (bitmaps bs))
       @ concat (map enc_entry (indices bs)) @ bitmaps bs"

text \<open>
  Modelled from the spec: the missing deserialization. A zero-length blob stands for the
  empty set; a blob that is shorter than its header, or than the lengths in its header
  promise, or that carries another format version, is rejected.
\<close>

definition deserialize :: "layout \<Rightarrow> u8 list \<Rightarrow> error + SparseBitSet" where
  "deserialize g bytes =
     (if bytes = [] then Inr SparseBitSet_empty
      else if length bytes < 12 then Inl Malformed
      else
        let version = rd32 (take 4 bytes);
            n = rd32 (take 4 (drop 4 bytes));
            m = rd32 (take 4 (drop 8 bytes))
        in if version \<noteq> FORMAT_VERSION g then Inl Malformed
           else if length bytes < 12 + 4 * n + m then Inl Malformed
           else Inr \<lparr>indices = dec_table n (drop 12 bytes),
                     bitmaps = take m (drop (12 + 4 * n) bytes)\<rparr>)"

text \<open>
  Modelled from the spec: the bit sets a caller can hold. Each comes from one of the three
  constructors: the default one, the one from a buffer of \<open>2 * nRanges\<close> values, and the
  one from a serialized blob.
\<close>

inductive reachable :: "layout \<Rightarrow> SparseBitSet \<Rightarrow> bool" where
  "reachable g SparseBitSet_empty"
| "length ranges = 2 * nRanges \<Longrightarrow> reachable g (SparseBitSet_new g ranges nRanges)"
| "deserialize g bytes = Inr bs \<Longrightarrow> reachable g bs"

text \<open>
  Modelled from the spec: the bit sets whose lengths and offsets the 32-bit fields of the
  serialized form can hold.
\<close>

definition fits32 :: "SparseBitSet \<Rightarrow> bool" where
  "fits32 bs \<longleftrightarrow>
     length (indices bs) < 2 ^ 32 \<and> length (bitmaps bs) < 2 ^ 32
     \<and> list_all (\<lambda>e. case e of None \<Rightarrow> True | Some off \<Rightarrow> off < 4294967295) (indices bs)"

section \<open>Fonts, families and their collaborators (FontFamily.cpp)\<close>

text \<open>
  A \<^verbatim>\<open>std::shared_ptr<MinikinFont>\<close> is a resource handle that may be null: \<open>None\<close> is the
  null pointer, \<open>Some h\<close> the resource with identity \<open>h\<close>.
\<close>

record Font =
  typeface :: "nat option"
  style :: FontStyle

text \<open>
  Modelled from the spec: the declaration of \<^verbatim>\<open>FontVariation\<close>, whose header is not
  among the sources. It is a pair of an axis tag and a value; the value (a float in the
  C++) is carried as its 32 raw bits and is never inspected by the code modelled here.
\<close>

record FontVariation =
  axisTag :: u32
  variationValue :: u32

record FakedFont =
  font :: "nat option"
  fakery :: FontFakery

text \<open>Modelled from the spec: the variant tag, an enumeration declared in a missing header.\<close>

datatype Variant = DEFAULT | COMPACT | ELEGANT

record FontFamily =
  mLocaleListId :: u32
  mVariant :: Variant
  mFonts :: "Font list"
  mCoverage :: SparseBitSet
  mCmapFmt14Coverage :: "SparseBitSet option list"
  mSupportedAxes :: "u32 set"

text \<open>
  The code outside this file that FontFamily.cpp calls, as parameters: the table bytes of
  a resource (\<open>None\<close> is a blob whose data pointer is null), the decoders for the
  \<^verbatim>\<open>fvar\<close> and \<^verbatim>\<open>cmap\<close> tables, the translation of a variation selector to its index,
  the resource's own \<^verbatim>\<open>createFontWithVariation\<close> (\<open>None\<close> is a null result), and the
  layout of the bit sets.
\<close>

record collaborators =
  bitsetLayout :: layout
  tableBytes :: "nat \<Rightarrow> u32 \<Rightarrow> u8 list option"
  analyzeAxes :: "u8 list \<Rightarrow> u32 set"
  getCoverage :: "u8 list \<Rightarrow> SparseBitSet \<times> SparseBitSet option list"
  getVsIndex :: "u32 \<Rightarrow> u16"
  createFontWithVariation :: "nat \<Rightarrow> FontVariation list \<Rightarrow> nat option"

text \<open>
  Modelled from the spec: the missing \<^verbatim>\<open>MinikinFont::MakeTag\<close>, which packs four
  characters into a 32-bit tag, first character in the highest byte.
\<close>

definition MakeTag :: "char \<Rightarrow> char \<Rightarrow> char \<Rightarrow> char \<Rightarrow> u32" where
  "MakeTag c1 c2 c3 c4 =
     of_nat (((of_char c1 * 256 + of_char c2) * 256 + of_char c3) * 256 + of_char c4)"

text \<open>
  Modelled from the spec: the missing \<^verbatim>\<open>getFontTable\<close>. It hands out the table bytes
  of a resource; an absent table is an empty result and never an error, and with no
  resource at all (a null pointer) there is no table.
\<close>

definition getFontTable :: "collaborators \<Rightarrow> nat option \<Rightarrow> u32 \<Rightarrow> u8 list option" where
  "getFontTable env minikinFont tag =
     (case minikinFont of None \<Rightarrow> None | Some h \<Rightarrow> tableBytes env h tag)"

text \<open>\<^verbatim>\<open>Font::getSupportedAxesLocked\<close>, lines 44-54: a blob of size 0 gives no axes.\<close>

definition getSupportedAxesLocked :: "collaborators \<Rightarrow> Font \<Rightarrow> u32 set" where
  "getSupportedAxesLocked env f =
     (let fvarTag = MakeTag CHR ''f'' CHR ''v'' CHR ''a'' CHR ''r''
      in case getFontTable env (typeface f) fvarTag of
           None \<Rightarrow> {}
         | Some bytes \<Rightarrow> if length bytes = 0 then {} else analyzeAxes env bytes)"

text \<open>
  \<^verbatim>\<open>FontFamily::getClosestMatch\<close>, lines 110-125. The loop runs over the index \<open>i\<close>;
  the pointer \<^verbatim>\<open>bestFont\<close> into \<^verbatim>\<open>mFonts\<close> is the index it points at, \<open>None\<close> while it
  is null.
\<close>

function getClosestMatch_loop ::
  "Font list \<Rightarrow> FontStyle \<Rightarrow> nat \<Rightarrow> nat option \<times> int \<Rightarrow> nat option \<times> int" where
  "getClosestMatch_loop fonts st i (bestFont, bestMatch) =
     (if i < length fonts then
        (let match = computeMatch (style (fonts ! i)) st
         in if i = 0 \<or> match < bestMatch
            then getClosestMatch_loop fonts st (i + 1) (Some i, match)
            else getClosestMatch_loop fonts st (i + 1) (bestFont, bestMatch))
      else (bestFont, bestMatch))"
  by pat_completeness auto
termination
  by (relation "measure (\<lambda>(fonts, st, i, b). length fonts - i)") auto

definition bestFontIndex :: "Font list \<Rightarrow> FontStyle \<Rightarrow> nat option" where
  "bestFontIndex fonts st = fst (getClosestMatch_loop fonts st 0 (None, 0))"

definition getClosestMatch :: "FontFamily \<Rightarrow> FontStyle \<Rightarrow> FakedFont" where
  "getClosestMatch fam st =
     (case bestFontIndex (mFonts fam) st of
        Some i \<Rightarrow> \<lparr>font = typeface (mFonts fam ! i),
                   fakery = computeFakery st (style (mFonts fam ! i))\<rparr>
      | None \<Rightarrow> \<lparr>font = None, fakery = FontFakery_default\<rparr>)"

text \<open>
  Modelled from the spec: the default-constructed \<^verbatim>\<open>FontStyle\<close> (declared in a missing
  header), the neutral style: regular weight, upright.
\<close>

definition FontStyle_default :: FontStyle where
  "FontStyle_default = \<lparr>weight = 400, slant = UPRIGHT\<rparr>"

text \<open>The loop of lines 149-152, which adds every entry's axes to the family's set.\<close>

fun insertSupportedAxes :: "collaborators \<Rightarrow> Font list \<Rightarrow> u32 set \<Rightarrow> u32 set" where
  "insertSupportedAxes env [] axes = axes"
| "insertSupportedAxes env (f # fs) axes =
     insertSupportedAxes env fs (axes \<union> getSupportedAxesLocked env f)"

text \<open>
  \<^verbatim>\<open>FontFamily::computeCoverage\<close>, lines 137-153. When the \<^verbatim>\<open>cmap\<close> blob has a null
  data pointer the function returns early and leaves the family as it is. The lock is not
  modelled.
\<close>

definition computeCoverage :: "collaborators \<Rightarrow> FontFamily \<Rightarrow> FontFamily" where
  "computeCoverage env fam =
     (let typeface' = font (getClosestMatch fam FontStyle_default);
          cmapTag = MakeTag CHR ''c'' CHR ''m'' CHR ''a'' CHR ''p''
      in case getFontTable env typeface' cmapTag of
           None \<Rightarrow> fam
         | Some bytes \<Rightarrow>
             (let (coverage, vsCoverage) = getCoverage env bytes
              in fam\<lparr>mCoverage := coverage,
                     mCmapFmt14Coverage := vsCoverage,
                     mSupportedAxes := insertSupportedAxes env (mFonts fam) (mSupportedAxes fam)\<rparr>))"

text \<open>
  The constructor of lines 76-79: the members are initialised, the coverage, the selector
  table and the axis set start empty, and \<^verbatim>\<open>computeCoverage\<close> runs.
\<close>

definition FontFamily_new :: "collaborators \<Rightarrow> u32 \<Rightarrow> Variant \<Rightarrow> Font list \<Rightarrow> FontFamily" where
  "FontFamily_new env localeListId variant fonts =
     computeCoverage env
       \<lparr>mLocaleListId = localeListId, mVariant = variant, mFonts = fonts,
        mCoverage = SparseBitSet_empty, mCmapFmt14Coverage = [], mSupportedAxes = {}\<rparr>"

text \<open>\<^verbatim>\<open>FontFamily::hasGlyph\<close>, lines 155-178.\<close>

definition hasGlyph :: "collaborators \<Rightarrow> FontFamily \<Rightarrow> u32 \<Rightarrow> u32 \<Rightarrow> error + bool" where
  "hasGlyph env fam codepoint variationSelector =
     (if variationSelector = 0 then get (bitsetLayout env) (mCoverage fam) codepoint
      else if mCmapFmt14Coverage fam = [] then Inr False
      else
        let vsIndex = getVsIndex env variationSelector
        in if unat vsIndex \<ge> length (mCmapFmt14Coverage fam) then Inr False
           else case mCmapFmt14Coverage fam ! unat vsIndex of
                  None \<Rightarrow> Inr False
                | Some bitset \<Rightarrow> get (bitsetLayout env) bitset codepoint)"

text \<open>
  The two search loops of \<^verbatim>\<open>createFamilyWithVariation\<close> (lines 187-192 and 204-209):
  the flag becomes true at the first variation whose axis tag is in the set, and the loop
  stops there.
\<close>

fun hasSupportedAxis :: "u32 set \<Rightarrow> FontVariation list \<Rightarrow> bool" where
  "hasSupportedAxis axes [] = False"
| "hasSupportedAxis axes (v # vs) =
     (if axisTag v \<in> axes then True else hasSupportedAxis axes vs)"

text \<open>
  What the loop over the entries does for each font, recorded in order so that a result
  can say which work was done: the query for the font's own axes, and the request to the
  resource for a varied instance.
\<close>

datatype work = QueryAxes "nat option" | ApplyVariation nat

text \<open>
  The body of the loop of lines 199-219 for one entry. Calling
  \<^verbatim>\<open>createFontWithVariation\<close> through a null \<^verbatim>\<open>typeface\<close> is a null dereference.
\<close>

definition deriveFont ::
  "collaborators \<Rightarrow> FontVariation list \<Rightarrow> Font \<Rightarrow> error + (Font \<times> work list)" where
  "deriveFont env variations f =
     (let supportedAxes = getSupportedAxesLocked env f;
          supportedVariations =
            (if supportedAxes \<noteq> {} then hasSupportedAxis supportedAxes variations else False)
      in if supportedVariations then
           (case typeface f of
              None \<Rightarrow> Inl NullDereference
            | Some h \<Rightarrow>
                (let minikinFont = createFontWithVariation env h variations;
                     minikinFont' = (if minikinFont = None then typeface f else minikinFont)
                 in Inr (\<lparr>typeface = minikinFont', style = style f\<rparr>,
                         [QueryAxes (typeface f), ApplyVariation h])))
         else Inr (\<lparr>typeface = typeface f, style = style f\<rparr>, [QueryAxes (typeface f)]))"

fun deriveFonts ::
  "collaborators \<Rightarrow> FontVariation list \<Rightarrow> Font list \<Rightarrow> error + (Font list \<times> work list)" where
  "deriveFonts env variations [] = Inr ([], [])"
| "deriveFonts env variations (f # fs) =
     (case deriveFont env variations f of
        Inl e \<Rightarrow> Inl e
      | Inr (f', w) \<Rightarrow>
          (case deriveFonts env variations fs of
             Inl e \<Rightarrow> Inl e
           | Inr (fs', ws) \<Rightarrow> Inr (f' # fs', w @ ws)))"

text \<open>
  \<^verbatim>\<open>FontFamily::createFamilyWithVariation\<close>, lines 180-222. \<open>None\<close> is the null result.
  The second component of a result is the per-font work done on the way.
\<close>

definition createFamilyWithVariation ::
  "collaborators \<Rightarrow> FontFamily \<Rightarrow> FontVariation list \<Rightarrow> error + (FontFamily option \<times> work list)" where
  "createFamilyWithVariation env fam variations =
     (if variations = [] \<or> mSupportedAxes fam = {} then Inr (None, [])
      else if \<not> hasSupportedAxis (mSupportedAxes fam) variations then Inr (None, [])
      else case deriveFonts env variations (mFonts fam) of
             Inl e \<Rightarrow> Inl e
           | Inr (fonts, w) \<Rightarrow>
               Inr (Some (FontFamily_new env (mLocaleListId fam) (mVariant fam) fonts), w))"

section \<open>A small concrete world\<close>

text \<open>
  One layout, one bit set, one set of collaborators and one family of three fonts, on
  which the theorems below are instantiated. In the bit set only code point 9 is set:
  page 0 is the sentinel, page 1 starts at byte 0, whose bit 1 is on. Only resources 10
  and 30 have font tables, with the single axis tag 7; only resource 10 can be varied.
\<close>

definition example_layout :: layout where
  "example_layout = \<lparr>PAGE_SIZE = 8, DOMAIN_MAX = 64, FORMAT_VERSION = 1\<rparr>"

definition example_bitset :: SparseBitSet where
  "example_bitset = \<lparr>indices = [None, Some 0], bitmaps = [2]\<rparr>"

definition example_env :: collaborators where
  "example_env =
     \<lparr>bitsetLayout = example_layout,
      tableBytes = (\<lambda>h tag. if h = 10 \<or> h = 30 then Some [1] else None),
      analyzeAxes = (\<lambda>bytes. {7}),
      getCoverage = (\<lambda>bytes. (example_bitset, [None, Some example_bitset])),
      getVsIndex = (\<lambda>v. if 0xFE00 \<le> v \<and> v \<le> 0xFE0F then ucast (v - 0xFE00) else 0xFFFF),
      createFontWithVariation = (\<lambda>h vs. if h = 10 then Some 11 else None)\<rparr>"

definition example_fonts :: "Font list" where
  "example_fonts =
     [\<lparr>typeface = Some 10, style = \<lparr>weight = 300, slant = UPRIGHT\<rparr>\<rparr>,
      \<lparr>typeface = Some 20, style = \<lparr>weight = 500, slant = UPRIGHT\<rparr>\<rparr>,
      \<lparr>typeface = Some 30, style = \<lparr>weight = 400, slant = ITALIC\<rparr>\<rparr>]"

definition example_family :: FontFamily where
  "example_family = FontFamily_new example_env 5 COMPACT example_fonts"

section \<open>Properties of the style functions\<close>

lemma FontStyle_eq_iff: "(a :: FontStyle) = b \<longleftrightarrow> weight a = weight b \<and> slant a = slant b"
  by (cases a, cases b) simp

text \<open>
  Claim C9. \<^verbatim>\<open>computeMatch(a, b)\<close> is 0 when the two styles are identical (same weight
  and same slant); otherwise it is the absolute difference of the weights bucketed in
  hundreds, plus 2 when the slants differ. The score is never negative, and it does not
  change when the two arguments are swapped.
\<close>

theorem computeMatch_score:
  "computeMatch a a = 0
   \<and> (weight a = weight b \<and> slant a = slant b \<longrightarrow> computeMatch a b = 0)
   \<and> (a \<noteq> b \<longrightarrow>
        computeMatch a b =
          \<bar>int (weight a) div 100 - int (weight b) div 100\<bar>
            + (if slant a \<noteq> slant b then 2 else 0))
   \<and> 0 \<le> computeMatch a b
   \<and> computeMatch a b = computeMatch b a"
  by (auto simp: computeMatch_def Let_def FontStyle_eq_iff)

theorem computeMatch_score_witness:
  "computeMatch \<lparr>weight = 400, slant = UPRIGHT\<rparr> \<lparr>weight = 400, slant = UPRIGHT\<rparr> = 0
   \<and> computeMatch \<lparr>weight = 450, slant = UPRIGHT\<rparr> \<lparr>weight = 700, slant = ITALIC\<rparr> = 5
   \<and> computeMatch \<lparr>weight = 700, slant = ITALIC\<rparr> \<lparr>weight = 450, slant = UPRIGHT\<rparr> = 5"
  using computeMatch_score [of "\<lparr>weight = 400, slant = UPRIGHT\<rparr>" "\<lparr>weight = 400, slant = UPRIGHT\<rparr>"]
        computeMatch_score [of "\<lparr>weight = 450, slant = UPRIGHT\<rparr>" "\<lparr>weight = 700, slant = ITALIC\<rparr>"]
  by simp

text \<open>
  Claim C4. \<^verbatim>\<open>computeFakery(wanted, actual)\<close> sets the bold flag exactly when the wanted
  weight is at least 600 and exceeds the actual weight by at least 200, and the italic flag
  exactly when the wanted slant is italic and the actual slant is upright. In particular
  wanted 700 italic against actual 400 upright gives both flags, and wanted 500 against
  actual 400 gives no fake bold.
\<close>

theorem computeFakery_flags:
  "isFakeBold (computeFakery wanted actual) =
     (600 \<le> int (weight wanted) \<and> 200 \<le> int (weight wanted) - int (weight actual))
   \<and> isFakeItalic (computeFakery wanted actual) =
       (slant wanted = ITALIC \<and> slant actual = UPRIGHT)
   \<and> computeFakery \<lparr>weight = 700, slant = ITALIC\<rparr> \<lparr>weight = 400, slant = UPRIGHT\<rparr>
       = \<lparr>isFakeBold = True, isFakeItalic = True\<rparr>
   \<and> isFakeBold (computeFakery \<lparr>weight = 500, slant = s1\<rparr> \<lparr>weight = 400, slant = s2\<rparr>) = False"
  by (simp add: computeFakery_def Let_def)

theorem computeFakery_flags_witness:
  "isFakeBold (computeFakery \<lparr>weight = 800, slant = UPRIGHT\<rparr> \<lparr>weight = 600, slant = ITALIC\<rparr>)
   \<and> \<not> isFakeItalic (computeFakery \<lparr>weight = 800, slant = UPRIGHT\<rparr> \<lparr>weight = 600, slant = ITALIC\<rparr>)
   \<and> \<not> isFakeBold (computeFakery \<lparr>weight = 700, slant = ITALIC\<rparr> \<lparr>weight = 600, slant = UPRIGHT\<rparr>)
   \<and> isFakeItalic (computeFakery \<lparr>weight = 700, slant = ITALIC\<rparr> \<lparr>weight = 600, slant = UPRIGHT\<rparr>)"
  using computeFakery_flags [of "\<lparr>weight = 800, slant = UPRIGHT\<rparr>" "\<lparr>weight = 600, slant = ITALIC\<rparr>" UPRIGHT UPRIGHT]
        computeFakery_flags [of "\<lparr>weight = 700, slant = ITALIC\<rparr>" "\<lparr>weight = 600, slant = UPRIGHT\<rparr>" UPRIGHT UPRIGHT]
  by simp

section \<open>The closest match\<close>

lemma getClosestMatch_loop_inv:
  assumes "i \<le> length fonts" and "fonts \<noteq> []"
    and "i = 0 \<or> (\<exists>k<i. b = Some k \<and> m = computeMatch (style (fonts ! k)) st
            \<and> (\<forall>j<i. computeMatch (style (fonts ! k)) st \<le> computeMatch (style (fonts ! j)) st)
            \<and> (\<forall>j<k. computeMatch (style (fonts ! k)) st < computeMatch (style (fonts ! j)) st))"
  shows "\<exists>k<length fonts. getClosestMatch_loop fonts st i (b, m) = (Some k, computeMatch (style (fonts ! k)) st)
            \<and> (\<forall>j<length fonts. computeMatch (style (fonts ! k)) st \<le> computeMatch (style (fonts ! j)) st)
            \<and> (\<forall>j<k. computeMatch (style (fonts ! k)) st < computeMatch (style (fonts ! j)) st)"
  using assms
proof (induction fonts st i "(b, m)" arbitrary: b m rule: getClosestMatch_loop.induct)
  case (1 fonts st i bestFont bestMatch)
  let ?sc = "\<lambda>j. computeMatch (style (fonts ! j)) st"
  show ?case
  proof (cases "i < length fonts")
    case False
    with "1.prems" have "i = length fonts" "i \<noteq> 0" by auto
    with "1.prems"(3) False show ?thesis by auto
  next
    case True
    show ?thesis
    proof (cases "i = 0 \<or> ?sc i < bestMatch")
      case take: True
      have inv: "i + 1 = 0 \<or> (\<exists>k<i + 1. Some i = Some k \<and> ?sc i = ?sc k
            \<and> (\<forall>j<i + 1. ?sc k \<le> ?sc j) \<and> (\<forall>j<k. ?sc k < ?sc j))"
      proof -
        have "(\<forall>j<i + 1. ?sc i \<le> ?sc j) \<and> (\<forall>j<i. ?sc i < ?sc j)"
        proof (cases "i = 0")
          case True then show ?thesis by simp
        next
          case False
          with "1.prems"(3) obtain k where k: "k < i" "bestFont = Some k" "bestMatch = ?sc k"
            "\<forall>j<i. ?sc k \<le> ?sc j" by auto
          from take False have lt: "?sc i < ?sc k" using k by simp
          have "\<forall>j<i. ?sc i < ?sc j" using k(4) lt by fastforce
          moreover have "\<forall>j<i + 1. ?sc i \<le> ?sc j"
            using \<open>\<forall>j<i. ?sc i < ?sc j\<close> by (auto simp: less_Suc_eq)
          ultimately show ?thesis by simp
        qed
        then show ?thesis by auto
      qed
      have "getClosestMatch_loop fonts st i (bestFont, bestMatch)
            = getClosestMatch_loop fonts st (i + 1) (Some i, ?sc i)"
        using True take by (simp add: Let_def)
      moreover have "\<exists>k<length fonts. getClosestMatch_loop fonts st (i + 1) (Some i, ?sc i) = (Some k, ?sc k)
            \<and> (\<forall>j<length fonts. ?sc k \<le> ?sc j) \<and> (\<forall>j<k. ?sc k < ?sc j)"
        using "1.hyps"(1)[OF True refl take _ "1.prems"(2) inv] True by simp
      ultimately show ?thesis by simp
    next
      case keep: False
      then have "i \<noteq> 0" "\<not> ?sc i < bestMatch" by auto
      with "1.prems"(3) obtain k where k: "k < i" "bestFont = Some k" "bestMatch = ?sc k"
            "\<forall>j<i. ?sc k \<le> ?sc j" "\<forall>j<k. ?sc k < ?sc j" by auto
      have "\<forall>j<i + 1. ?sc k \<le> ?sc j"
        using k(3,4) \<open>\<not> ?sc i < bestMatch\<close> by (auto simp: less_Suc_eq)
      then have inv: "i + 1 = 0 \<or> (\<exists>k<i + 1. bestFont = Some k \<and> bestMatch = ?sc k
            \<and> (\<forall>j<i + 1. ?sc k \<le> ?sc j) \<and> (\<forall>j<k. ?sc k < ?sc j))"
        using k by (intro disjI2 exI[of _ k]) auto
      have "getClosestMatch_loop fonts st i (bestFont, bestMatch)
            = getClosestMatch_loop fonts st (i + 1) (bestFont, bestMatch)"
        using True keep by (simp add: Let_def)
      moreover have "\<exists>k<length fonts. getClosestMatch_loop fonts st (i + 1) (bestFont, bestMatch) = (Some k, ?sc k)
            \<and> (\<forall>j<length fonts. ?sc k \<le> ?sc j) \<and> (\<forall>j<k. ?sc k < ?sc j)"
        using "1.hyps"(2)[OF True refl keep _ "1.prems"(2) inv] True by simp
      ultimately show ?thesis by simp
    qed
  qed
qed

text \<open>
  Claim C3. On a family with at least one entry, \<^verbatim>\<open>getClosestMatch\<close> scans the entries
  once from the first, which seeds the best match; a later entry takes over only with a
  strictly lower score. So the entry returned has the lowest score of all and every entry
  before it has a strictly higher one; of two entries with the same score the later one is
  never returned.
\<close>

theorem getClosestMatch_first_best:
  assumes "mFonts fam \<noteq> []"
  shows "\<exists>k < length (mFonts fam).
            bestFontIndex (mFonts fam) st = Some k
          \<and> getClosestMatch fam st =
              \<lparr>font = typeface (mFonts fam ! k),
               fakery = computeFakery st (style (mFonts fam ! k))\<rparr>
          \<and> (\<forall>j < length (mFonts fam).
                computeMatch (style (mFonts fam ! k)) st \<le> computeMatch (style (mFonts fam ! j)) st)
          \<and> (\<forall>j < k.
                computeMatch (style (mFonts fam ! k)) st < computeMatch (style (mFonts fam ! j)) st)
          \<and> (\<forall>i j. i < j \<and> j < length (mFonts fam)
                \<and> computeMatch (style (mFonts fam ! i)) st = computeMatch (style (mFonts fam ! j)) st
                \<longrightarrow> k \<noteq> j)"
proof -
  let ?fonts = "mFonts fam"
  let ?sc = "\<lambda>j. computeMatch (style (?fonts ! j)) st"
  from getClosestMatch_loop_inv [of 0 ?fonts None 0 st] assms
  obtain k where k: "k < length ?fonts"
      "getClosestMatch_loop ?fonts st 0 (None, 0) = (Some k, ?sc k)"
      "\<forall>j<length ?fonts. ?sc k \<le> ?sc j" "\<forall>j<k. ?sc k < ?sc j"
    by auto
  have idx: "bestFontIndex ?fonts st = Some k"
    using k(2) by (simp add: bestFontIndex_def)
  have res: "getClosestMatch fam st =
      \<lparr>font = typeface (?fonts ! k), fakery = computeFakery st (style (?fonts ! k))\<rparr>"
    using idx by (simp add: getClosestMatch_def)
  have tie: "\<forall>i j. i < j \<and> j < length ?fonts \<and> ?sc i = ?sc j \<longrightarrow> k \<noteq> j"
    using k(4) by fastforce
  show ?thesis
    using k(1) idx res k(3) k(4) tie by blast
qed

section \<open>Facts about the family operations\<close>

lemma hasSupportedAxis_iff:
  "hasSupportedAxis axes vs \<longleftrightarrow> (\<exists>v \<in> set vs. axisTag v \<in> axes)"
  by (induction vs) auto

lemma bestFontIndex_Nil: "bestFontIndex [] st = None"
  by (simp add: bestFontIndex_def)

lemma getSupportedAxesLocked_null:
  "typeface f = None \<Longrightarrow> getSupportedAxesLocked env f = {}"
  by (simp add: getSupportedAxesLocked_def getFontTable_def)

lemma computeCoverage_frame:
  "mFonts (computeCoverage env fam) = mFonts fam
   \<and> mLocaleListId (computeCoverage env fam) = mLocaleListId fam
   \<and> mVariant (computeCoverage env fam) = mVariant fam"
  by (simp add: computeCoverage_def Let_def split: option.splits prod.splits)

lemma FontFamily_new_frame:
  "mFonts (FontFamily_new env l v fonts) = fonts
   \<and> mLocaleListId (FontFamily_new env l v fonts) = l
   \<and> mVariant (FontFamily_new env l v fonts) = v"
  by (simp add: FontFamily_new_def computeCoverage_frame)

lemma insertSupportedAxes_eq:
  "insertSupportedAxes env fs axes = axes \<union> (\<Union>f \<in> set fs. getSupportedAxesLocked env f)"
  by (induction fs arbitrary: axes) auto

lemma FontFamily_new_axes_subset:
  "mSupportedAxes (FontFamily_new env l v fonts) \<subseteq> (\<Union>f \<in> set fonts. getSupportedAxesLocked env f)"
  by (auto simp: FontFamily_new_def computeCoverage_def Let_def insertSupportedAxes_eq
           split: option.splits prod.splits)

lemma deriveFont_total:
  "\<exists>f' w. deriveFont env vs f = Inr (f', w) \<and> style f' = style f
     \<and> (typeface f' = typeface f
         \<or> (\<exists>h h'. typeface f = Some h \<and> createFontWithVariation env h vs = Some h'
               \<and> typeface f' = Some h'
               \<and> (\<exists>v \<in> set vs. axisTag v \<in> getSupportedAxesLocked env f)))"
proof (cases "typeface f")
  case None
  then show ?thesis
    by (simp add: deriveFont_def getSupportedAxesLocked_null)
next
  case (Some h)
  then show ?thesis
    by (cases "createFontWithVariation env h vs")
       (auto simp: deriveFont_def Let_def hasSupportedAxis_iff)
qed

lemma deriveFont_unsupported:
  "\<forall>v \<in> set vs. axisTag v \<notin> getSupportedAxesLocked env f \<Longrightarrow>
   deriveFont env vs f = Inr (\<lparr>typeface = typeface f, style = style f\<rparr>, [QueryAxes (typeface f)])"
  by (auto simp: deriveFont_def Let_def hasSupportedAxis_iff)

lemma deriveFonts_total:
  "\<exists>fs' w. deriveFonts env vs fs = Inr (fs', w) \<and> length fs' = length fs
     \<and> (\<forall>i<length fs. \<exists>wi. deriveFont env vs (fs ! i) = Inr (fs' ! i, wi))"
proof (induction fs)
  case Nil
  then show ?case by simp
next
  case (Cons f fs)
  obtain f' w where f': "deriveFont env vs f = Inr (f', w)"
    using deriveFont_total by blast
  from Cons obtain fs' ws where fs': "deriveFonts env vs fs = Inr (fs', ws)"
    "length fs' = length fs"
    "\<forall>i<length fs. \<exists>wi. deriveFont env vs (fs ! i) = Inr (fs' ! i, wi)" by blast
  have "deriveFonts env vs (f # fs) = Inr (f' # fs', w @ ws)"
    using f' fs'(1) by simp
  moreover have "\<forall>i<length (f # fs). \<exists>wi. deriveFont env vs ((f # fs) ! i) = Inr ((f' # fs') ! i, wi)"
    using f' fs'(3) by (auto simp: nth_Cons split: nat.splits)
  ultimately show ?case using fs'(2) by simp
qed

section \<open>Facts about the concrete world\<close>

lemma example_family_fonts: "mFonts example_family = example_fonts"
  by (simp add: example_family_def FontFamily_new_frame)

lemma example_family_coverage:
  "mCoverage example_family = example_bitset"
  "mCmapFmt14Coverage example_family = [None, Some example_bitset]"
  "mSupportedAxes example_family = {7}"
  by (simp_all add: example_family_def FontFamily_new_def computeCoverage_def getClosestMatch_def
      bestFontIndex_def example_fonts_def computeMatch_def getFontTable_def example_env_def
      getSupportedAxesLocked_def FontStyle_default_def Let_def)

lemma example_get:
  "get example_layout example_bitset 9 = Inr True"
  "get example_layout example_bitset 10 = Inr False"
  "get example_layout example_bitset 1 = Inr False"
  "get example_layout example_bitset 64 = Inr False"
  by (simp_all add: get_def example_layout_def example_bitset_def)

lemma example_env_fields:
  "bitsetLayout example_env = example_layout"
  "getVsIndex example_env 0xFE00 = 0"
  "getVsIndex example_env 0xFE01 = 1"
  "getVsIndex example_env 0xFE02 = 2"
  "getVsIndex example_env 0x41 = 0xFFFF"
  by (simp_all add: example_env_def)

lemma example_axes:
  "getSupportedAxesLocked example_env \<lparr>typeface = Some 10, style = s\<rparr> = {7}"
  "getSupportedAxesLocked example_env \<lparr>typeface = Some 20, style = s\<rparr> = {}"
  "getSupportedAxesLocked example_env \<lparr>typeface = Some 30, style = s\<rparr> = {7}"
  by (simp_all add: getSupportedAxesLocked_def getFontTable_def example_env_def)

lemma example_create:
  "createFontWithVariation example_env h vs = (if h = 10 then Some 11 else None)"
  by (simp add: example_env_def)

lemma example_deriveFonts:
  "deriveFonts example_env [\<lparr>axisTag = 7, variationValue = 0\<rparr>] example_fonts =
     Inr ([\<lparr>typeface = Some 11, style = \<lparr>weight = 300, slant = UPRIGHT\<rparr>\<rparr>,
           \<lparr>typeface = Some 20, style = \<lparr>weight = 500, slant = UPRIGHT\<rparr>\<rparr>,
           \<lparr>typeface = Some 30, style = \<lparr>weight = 400, slant = ITALIC\<rparr>\<rparr>],
          [QueryAxes (Some 10), ApplyVariation 10, QueryAxes (Some 20), QueryAxes (Some 30),
           ApplyVariation 30])"
  by (simp add: example_fonts_def deriveFont_def example_axes example_create Let_def)

lemma example_derived_family:
  "createFamilyWithVariation example_env example_family [\<lparr>axisTag = 7, variationValue = 0\<rparr>] =
     Inr (Some (FontFamily_new example_env 5 COMPACT
            [\<lparr>typeface = Some 11, style = \<lparr>weight = 300, slant = UPRIGHT\<rparr>\<rparr>,
             \<lparr>typeface = Some 20, style = \<lparr>weight = 500, slant = UPRIGHT\<rparr>\<rparr>,
             \<lparr>typeface = Some 30, style = \<lparr>weight = 400, slant = ITALIC\<rparr>\<rparr>]),
          [QueryAxes (Some 10), ApplyVariation 10, QueryAxes (Some 20), QueryAxes (Some 30),
           ApplyVariation 30])"
  by (simp add: createFamilyWithVariation_def example_family_coverage example_family_fonts
      example_deriveFonts)
     (simp add: example_family_def FontFamily_new_frame)

section \<open>The claims about families\<close>

theorem getClosestMatch_first_best_witness:
  "mFonts example_family \<noteq> []
   \<and> computeMatch (style (mFonts example_family ! 0)) \<lparr>weight = 400, slant = UPRIGHT\<rparr>
       = computeMatch (style (mFonts example_family ! 1)) \<lparr>weight = 400, slant = UPRIGHT\<rparr>
   \<and> bestFontIndex (mFonts example_family) \<lparr>weight = 400, slant = UPRIGHT\<rparr> = Some 0
   \<and> getClosestMatch example_family \<lparr>weight = 400, slant = UPRIGHT\<rparr>
       = \<lparr>font = Some 10, fakery = \<lparr>isFakeBold = False, isFakeItalic = False\<rparr>\<rparr>"
proof -
  let ?st = "\<lparr>weight = 400, slant = UPRIGHT\<rparr>"
  have ne: "mFonts example_family \<noteq> []"
    by (simp add: example_family_fonts example_fonts_def)
  from getClosestMatch_first_best [OF ne, of ?st]
  obtain k where k: "k < length (mFonts example_family)"
      "bestFontIndex (mFonts example_family) ?st = Some k"
      "getClosestMatch example_family ?st =
         \<lparr>font = typeface (mFonts example_family ! k),
          fakery = computeFakery ?st (style (mFonts example_family ! k))\<rparr>"
      "\<forall>j < length (mFonts example_family).
          computeMatch (style (mFonts example_family ! k)) ?st
            \<le> computeMatch (style (mFonts example_family ! j)) ?st"
      "\<forall>j < k. computeMatch (style (mFonts example_family ! k)) ?st
            < computeMatch (style (mFonts example_family ! j)) ?st"
    by blast
  have "bestFontIndex example_fonts ?st = Some 0"
    by (simp add: bestFontIndex_def example_fonts_def computeMatch_def)
  with k(2) have "k = 0"
    by (simp add: example_family_fonts)
  with k(2,3) ne show ?thesis
    by (simp add: example_family_fonts example_fonts_def computeFakery_def computeMatch_def)
qed

text \<open>
  Claim C5. \<^verbatim>\<open>hasGlyph(c, 0)\<close> is the base coverage bit set's \<^verbatim>\<open>get(c)\<close>. For a selector
  \<open>v\<close> other than 0 the answer is false, without error, when the per-selector table is
  empty, when the index of \<open>v\<close> is outside the table, or when no bit set is recorded at that
  index; otherwise it is the \<^verbatim>\<open>get(c)\<close> of the bit set recorded there.
\<close>

theorem hasGlyph_cases:
  "hasGlyph env fam c 0 = get (bitsetLayout env) (mCoverage fam) c
   \<and> (v \<noteq> 0 \<and> mCmapFmt14Coverage fam = [] \<longrightarrow> hasGlyph env fam c v = Inr False)
   \<and> (v \<noteq> 0 \<and> length (mCmapFmt14Coverage fam) \<le> unat (getVsIndex env v)
        \<longrightarrow> hasGlyph env fam c v = Inr False)
   \<and> (v \<noteq> 0 \<and> unat (getVsIndex env v) < length (mCmapFmt14Coverage fam)
        \<and> mCmapFmt14Coverage fam ! unat (getVsIndex env v) = None
        \<longrightarrow> hasGlyph env fam c v = Inr False)
   \<and> (\<forall>bitset. v \<noteq> 0 \<and> unat (getVsIndex env v) < length (mCmapFmt14Coverage fam)
        \<and> mCmapFmt14Coverage fam ! unat (getVsIndex env v) = Some bitset
        \<longrightarrow> hasGlyph env fam c v = get (bitsetLayout env) bitset c)"
  by (auto simp: hasGlyph_def Let_def)

theorem hasGlyph_cases_witness:
  "hasGlyph example_env example_family 9 0 = Inr True
   \<and> hasGlyph example_env example_family 10 0 = Inr False
   \<and> hasGlyph example_env (example_family\<lparr>mCmapFmt14Coverage := []\<rparr>) 9 0xFE01 = Inr False
   \<and> hasGlyph example_env example_family 9 0xFE02 = Inr False
   \<and> hasGlyph example_env example_family 9 0x41 = Inr False
   \<and> hasGlyph example_env example_family 9 0xFE00 = Inr False
   \<and> hasGlyph example_env example_family 9 0xFE01 = Inr True"
  using hasGlyph_cases [of example_env example_family 9 "0xFE01"]
        hasGlyph_cases [of example_env example_family 10 "0xFE02"]
        hasGlyph_cases [of example_env example_family 9 "0xFE02"]
        hasGlyph_cases [of example_env example_family 9 "0x41"]
        hasGlyph_cases [of example_env example_family 9 "0xFE00"]
        hasGlyph_cases [of example_env "example_family\<lparr>mCmapFmt14Coverage := []\<rparr>" 9 "0xFE01"]
  by (simp add: example_family_coverage example_get example_env_fields)

text \<open>
  Claim C6. A family constructed from an empty entry list has no entries; every coverage
  query on it answers false without error, and a match query returns no font with both
  fakery flags off. The match answer is the same for any family value whose entry list is
  empty. Construction itself has no failing step.
\<close>

theorem empty_family_queries:
  "mFonts (FontFamily_new env localeListId variant []) = []
   \<and> hasGlyph env (FontFamily_new env localeListId variant []) c v = Inr False
   \<and> getClosestMatch (FontFamily_new env localeListId variant []) st
       = \<lparr>font = None, fakery = \<lparr>isFakeBold = False, isFakeItalic = False\<rparr>\<rparr>
   \<and> (mFonts fam = [] \<longrightarrow>
        getClosestMatch fam st = \<lparr>font = None, fakery = \<lparr>isFakeBold = False, isFakeItalic = False\<rparr>\<rparr>)"
proof -
  let ?fam = "FontFamily_new env localeListId variant []"
  have none: "\<And>f. mFonts f = [] \<Longrightarrow>
      getClosestMatch f st = \<lparr>font = None, fakery = \<lparr>isFakeBold = False, isFakeItalic = False\<rparr>\<rparr>"
    by (simp add: getClosestMatch_def bestFontIndex_Nil FontFakery_default_def)
  have same: "?fam = \<lparr>mLocaleListId = localeListId, mVariant = variant, mFonts = [],
        mCoverage = SparseBitSet_empty, mCmapFmt14Coverage = [], mSupportedAxes = {}\<rparr>"
    by (simp add: FontFamily_new_def computeCoverage_def getClosestMatch_def bestFontIndex_Nil
        getFontTable_def)
  have glyph: "hasGlyph env ?fam c v = Inr False"
    unfolding same by (simp add: hasGlyph_def get_def SparseBitSet_empty_def Let_def)
  show ?thesis
    using none [of ?fam] none [of fam] glyph by (simp add: same)
qed

theorem empty_family_queries_witness:
  "hasGlyph example_env (FontFamily_new example_env 5 COMPACT []) 9 0 = Inr False
   \<and> hasGlyph example_env (FontFamily_new example_env 5 COMPACT []) 9 0xFE01 = Inr False
   \<and> font (getClosestMatch (FontFamily_new example_env 5 COMPACT []) \<lparr>weight = 700, slant = ITALIC\<rparr>) = None"
  using empty_family_queries [of example_env 5 COMPACT 9 0 "\<lparr>weight = 700, slant = ITALIC\<rparr>" "FontFamily_new example_env 5 COMPACT []"]
        empty_family_queries [of example_env 5 COMPACT 9 "0xFE01" "\<lparr>weight = 700, slant = ITALIC\<rparr>" "FontFamily_new example_env 5 COMPACT []"]
  by simp

text \<open>
  Claim C7. \<^verbatim>\<open>createFamilyWithVariation\<close> returns the null result, and has done no
  per-font work, when the list of variations is empty, when the family's set of supported
  axes is empty, or when no requested axis tag is in that set. A family constructed from
  entries none of which supports an axis is such a family.
\<close>

theorem createFamilyWithVariation_rejects:
  "(variations = [] \<longrightarrow> createFamilyWithVariation env fam variations = Inr (None, []))
   \<and> (mSupportedAxes fam = {} \<longrightarrow> createFamilyWithVariation env fam variations = Inr (None, []))
   \<and> ((\<forall>v \<in> set variations. axisTag v \<notin> mSupportedAxes fam)
        \<longrightarrow> createFamilyWithVariation env fam variations = Inr (None, []))
   \<and> ((\<forall>f \<in> set fonts. getSupportedAxesLocked env f = {})
        \<longrightarrow> createFamilyWithVariation env (FontFamily_new env localeListId variant fonts) variations
              = Inr (None, []))"
proof -
  have axes: "(\<forall>f \<in> set fonts. getSupportedAxesLocked env f = {})
      \<longrightarrow> mSupportedAxes (FontFamily_new env localeListId variant fonts) = {}"
    using FontFamily_new_axes_subset [of env localeListId variant fonts] by auto
  show ?thesis
    using axes by (auto simp: createFamilyWithVariation_def hasSupportedAxis_iff)
qed

theorem createFamilyWithVariation_rejects_witness:
  "createFamilyWithVariation example_env example_family [] = Inr (None, [])
   \<and> createFamilyWithVariation example_env (example_family\<lparr>mSupportedAxes := {}\<rparr>)
        [\<lparr>axisTag = 7, variationValue = 0\<rparr>] = Inr (None, [])
   \<and> createFamilyWithVariation example_env example_family
        [\<lparr>axisTag = 8, variationValue = 0\<rparr>, \<lparr>axisTag = 9, variationValue = 1\<rparr>] = Inr (None, [])
   \<and> createFamilyWithVariation example_env
        (FontFamily_new example_env 5 COMPACT [\<lparr>typeface = Some 20, style = \<lparr>weight = 400, slant = UPRIGHT\<rparr>\<rparr>])
        [\<lparr>axisTag = 7, variationValue = 0\<rparr>] = Inr (None, [])"
  using createFamilyWithVariation_rejects [of "[]" example_env example_family "[]" 5 COMPACT]
        createFamilyWithVariation_rejects [of "[\<lparr>axisTag = 7, variationValue = 0\<rparr>]" example_env
           "example_family\<lparr>mSupportedAxes := {}\<rparr>"
           "[\<lparr>typeface = Some 20, style = \<lparr>weight = 400, slant = UPRIGHT\<rparr>\<rparr>]" 5 COMPACT]
        createFamilyWithVariation_rejects [of "[\<lparr>axisTag = 8, variationValue = 0\<rparr>, \<lparr>axisTag = 9, variationValue = 1\<rparr>]"
           example_env example_family "[]" 5 COMPACT]
  by (simp add: example_family_coverage getSupportedAxesLocked_def getFontTable_def example_env_def)

text \<open>
  Claim C8. When the checks at the start of \<^verbatim>\<open>createFamilyWithVariation\<close> pass, the
  call succeeds with a new family that has one entry for each entry of the source, in the
  same order. An entry whose own axes include none of the requested ones keeps its
  resource, and so does an entry whose resource fails to produce a varied instance.
\<close>

theorem createFamilyWithVariation_keeps_entries:
  assumes "variations \<noteq> []"
    and "\<exists>v \<in> set variations. axisTag v \<in> mSupportedAxes fam"
  shows "\<exists>fam' w.
           createFamilyWithVariation env fam variations = Inr (Some fam', w)
         \<and> length (mFonts fam') = length (mFonts fam)
         \<and> (\<forall>i < length (mFonts fam).
              ((\<forall>v \<in> set variations. axisTag v \<notin> getSupportedAxesLocked env (mFonts fam ! i))
                 \<longrightarrow> typeface (mFonts fam' ! i) = typeface (mFonts fam ! i))
            \<and> (\<forall>h. typeface (mFonts fam ! i) = Some h
                     \<and> createFontWithVariation env h variations = None
                 \<longrightarrow> typeface (mFonts fam' ! i) = typeface (mFonts fam ! i)))"
proof -
  from deriveFonts_total [of env variations "mFonts fam"]
  obtain fs' w where d: "deriveFonts env variations (mFonts fam) = Inr (fs', w)"
      "length fs' = length (mFonts fam)"
      "\<forall>i<length (mFonts fam). \<exists>wi. deriveFont env variations (mFonts fam ! i) = Inr (fs' ! i, wi)"
    by blast
  let ?fam' = "FontFamily_new env (mLocaleListId fam) (mVariant fam) fs'"
  have guard: "\<not> (variations = [] \<or> mSupportedAxes fam = {})"
      "hasSupportedAxis (mSupportedAxes fam) variations"
    using assms by (auto simp: hasSupportedAxis_iff)
  have res: "createFamilyWithVariation env fam variations = Inr (Some ?fam', w)"
    using guard d(1) by (simp add: createFamilyWithVariation_def)
  have fonts: "mFonts ?fam' = fs'"
    by (simp add: FontFamily_new_frame)
  have each: "\<forall>i < length (mFonts fam).
              ((\<forall>v \<in> set variations. axisTag v \<notin> getSupportedAxesLocked env (mFonts fam ! i))
                 \<longrightarrow> typeface (fs' ! i) = typeface (mFonts fam ! i))
            \<and> (\<forall>h. typeface (mFonts fam ! i) = Some h
                     \<and> createFontWithVariation env h variations = None
                 \<longrightarrow> typeface (fs' ! i) = typeface (mFonts fam ! i))"
  proof (intro allI impI)
    fix i assume i: "i < length (mFonts fam)"
    let ?f = "mFonts fam ! i"
    from d(3) i obtain wi where wi: "deriveFont env variations ?f = Inr (fs' ! i, wi)" by blast
    from deriveFont_total [of env variations ?f] wi
    have alt: "typeface (fs' ! i) = typeface ?f
         \<or> (\<exists>h h'. typeface ?f = Some h \<and> createFontWithVariation env h variations = Some h'
               \<and> typeface (fs' ! i) = Some h'
               \<and> (\<exists>v \<in> set variations. axisTag v \<in> getSupportedAxesLocked env ?f))"
      by auto
    then show "((\<forall>v \<in> set variations. axisTag v \<notin> getSupportedAxesLocked env ?f)
                 \<longrightarrow> typeface (fs' ! i) = typeface ?f)
            \<and> (\<forall>h. typeface ?f = Some h \<and> createFontWithVariation env h variations = None
                 \<longrightarrow> typeface (fs' ! i) = typeface ?f)"
      by auto
  qed
  show ?thesis
    using res fonts d(2) each by (intro exI[of _ ?fam'] exI[of _ w]) simp
qed

theorem createFamilyWithVariation_keeps_entries_witness:
  "[\<lparr>axisTag = 7, variationValue = 0\<rparr>] \<noteq> []
   \<and> (\<exists>v \<in> set [\<lparr>axisTag = 7, variationValue = 0\<rparr>]. axisTag v \<in> mSupportedAxes example_family)
   \<and> (\<exists>fam' w. createFamilyWithVariation example_env example_family
                   [\<lparr>axisTag = 7, variationValue = 0\<rparr>] = Inr (Some fam', w)
         \<and> map typeface (mFonts fam') = [Some 11, Some 20, Some 30]
         \<and> typeface (mFonts fam' ! 1) = typeface (mFonts example_family ! 1)
         \<and> typeface (mFonts fam' ! 2) = typeface (mFonts example_family ! 2))"
proof -
  let ?vs = "[\<lparr>axisTag = 7, variationValue = 0\<rparr>]"
  have h1: "?vs \<noteq> []" by simp
  have h2: "\<exists>v \<in> set ?vs. axisTag v \<in> mSupportedAxes example_family"
    by (simp add: example_family_coverage)
  from createFamilyWithVariation_keeps_entries [OF h1 h2, of example_env]
  obtain fam' w where r: "createFamilyWithVariation example_env example_family ?vs = Inr (Some fam', w)"
      "length (mFonts fam') = length (mFonts example_family)"
    by blast
  from r(1) have fam': "mFonts fam' =
            [\<lparr>typeface = Some 11, style = \<lparr>weight = 300, slant = UPRIGHT\<rparr>\<rparr>,
             \<lparr>typeface = Some 20, style = \<lparr>weight = 500, slant = UPRIGHT\<rparr>\<rparr>,
             \<lparr>typeface = Some 30, style = \<lparr>weight = 400, slant = ITALIC\<rparr>\<rparr>]"
    by (auto simp: example_derived_family FontFamily_new_frame)
  have "map typeface (mFonts fam') = [Some 11, Some 20, Some 30]
         \<and> typeface (mFonts fam' ! 1) = typeface (mFonts example_family ! 1)
         \<and> typeface (mFonts fam' ! 2) = typeface (mFonts example_family ! 2)"
    by (simp add: fam' example_family_fonts example_fonts_def)
  with r(1) h1 h2 show ?thesis by simp
qed

text \<open>
  Claim C10. Whenever \<^verbatim>\<open>createFamilyWithVariation\<close> returns a new family, it has as many
  entries as the source, the entry at each index has the declared style of the source entry
  at that index, and the locale-list identifier and the variant are those of the source.
  The source family is an argument that the function only reads.
\<close>

theorem createFamilyWithVariation_frame:
  assumes "createFamilyWithVariation env fam variations = Inr (Some fam', w)"
  shows "length (mFonts fam') = length (mFonts fam)
       \<and> (\<forall>i < length (mFonts fam). style (mFonts fam' ! i) = style (mFonts fam ! i))
       \<and> mLocaleListId fam' = mLocaleListId fam
       \<and> mVariant fam' = mVariant fam"
proof -
  from deriveFonts_total [of env variations "mFonts fam"]
  obtain fs' w' where d: "deriveFonts env variations (mFonts fam) = Inr (fs', w')"
      "length fs' = length (mFonts fam)"
      "\<forall>i<length (mFonts fam). \<exists>wi. deriveFont env variations (mFonts fam ! i) = Inr (fs' ! i, wi)"
    by blast
  from assms d(1) have fam': "fam' = FontFamily_new env (mLocaleListId fam) (mVariant fam) fs'"
    by (auto simp: createFamilyWithVariation_def split: if_splits)
  have styles: "\<forall>i < length (mFonts fam). style (fs' ! i) = style (mFonts fam ! i)"
  proof (intro allI impI)
    fix i assume "i < length (mFonts fam)"
    with d(3) obtain wi where "deriveFont env variations (mFonts fam ! i) = Inr (fs' ! i, wi)"
      by blast
    with deriveFont_total [of env variations "mFonts fam ! i"]
    show "style (fs' ! i) = style (mFonts fam ! i)" by auto
  qed
  show ?thesis
    using d(2) styles by (simp add: fam' FontFamily_new_frame)
qed

theorem createFamilyWithVariation_frame_witness:
  "createFamilyWithVariation example_env example_family [\<lparr>axisTag = 7, variationValue = 0\<rparr>] =
     Inr (Some (FontFamily_new example_env 5 COMPACT
            [\<lparr>typeface = Some 11, style = \<lparr>weight = 300, slant = UPRIGHT\<rparr>\<rparr>,
             \<lparr>typeface = Some 20, style = \<lparr>weight = 500, slant = UPRIGHT\<rparr>\<rparr>,
             \<lparr>typeface = Some 30, style = \<lparr>weight = 400, slant = ITALIC\<rparr>\<rparr>]),
          [QueryAxes (Some 10), ApplyVariation 10, QueryAxes (Some 20), QueryAxes (Some 30),
           ApplyVariation 30])
   \<and> mLocaleListId example_family = 5
   \<and> mVariant example_family = COMPACT
   \<and> map style (mFonts example_family) =
       [\<lparr>weight = 300, slant = UPRIGHT\<rparr>, \<lparr>weight = 500, slant = UPRIGHT\<rparr>,
        \<lparr>weight = 400, slant = ITALIC\<rparr>]"
  using createFamilyWithVariation_frame [OF example_derived_family] example_derived_family
  by (simp add: FontFamily_new_frame example_family_fonts example_fonts_def)

section \<open>The sparse bit set: pages and lookups\<close>

lemma bit_page_byte:
  "j < 8 \<Longrightarrow> bit (page_byte g rs p k) j = bit_at g rs (p * PAGE_SIZE g + 8 * k + j)"
  by (simp add: page_byte_def bit_horner_sum_bit_iff)

lemma page_byte_zero:
  "page_byte g rs p k = 0 \<Longrightarrow> j < 8 \<Longrightarrow> \<not> bit_at g rs (p * PAGE_SIZE g + 8 * k + j)"
  using bit_page_byte [of j g rs p k] by simp

lemma length_page_bytes: "length (page_bytes g rs p) = PAGE_SIZE g div 8"
  by (simp add: page_bytes_def)

lemma build_pages_Cons:
  "build_pages g rs (p # ps) n =
     (if list_all (\<lambda>b. b = 0) (page_bytes g rs p)
      then (None # fst (build_pages g rs ps n), snd (build_pages g rs ps n))
      else (Some n # fst (build_pages g rs ps (n + PAGE_SIZE g div 8)),
            page_bytes g rs p @ snd (build_pages g rs ps (n + PAGE_SIZE g div 8))))"
  by (simp add: Let_def length_page_bytes split: prod.splits)

lemma build_pages_length: "length (fst (build_pages g rs ps n)) = length ps"
  by (induction ps arbitrary: n) (simp_all add: build_pages_Cons del: build_pages.simps(2))

lemma build_pages_bytes_le:
  "length (snd (build_pages g rs ps n)) \<le> length ps * (PAGE_SIZE g div 8)"
proof (induction ps arbitrary: n)
  case Nil
  then show ?case by simp
next
  case (Cons p ps)
  show ?case
  proof (cases "list_all (\<lambda>b. b = 0) (page_bytes g rs p)")
    case True
    then have "snd (build_pages g rs (p # ps) n) = snd (build_pages g rs ps n)"
      by (simp add: Let_def split: prod.splits)
    with Cons [of n] show ?thesis by simp
  next
    case False
    then have "snd (build_pages g rs (p # ps) n)
        = page_bytes g rs p @ snd (build_pages g rs ps (n + PAGE_SIZE g div 8))"
      by (simp add: Let_def length_page_bytes split: prod.splits)
    with Cons [of "n + PAGE_SIZE g div 8"] show ?thesis
      by (simp add: length_page_bytes)
  qed
qed

lemma build_pages_entry:
  assumes "i < length ps"
  shows "case fst (build_pages g rs ps n) ! i of
           None \<Rightarrow> list_all (\<lambda>b. b = 0) (page_bytes g rs (ps ! i))
         | Some off \<Rightarrow>
             (\<exists>d. off = n + d
                \<and> d + PAGE_SIZE g div 8 \<le> length (snd (build_pages g rs ps n))
                \<and> (\<forall>k < PAGE_SIZE g div 8.
                      snd (build_pages g rs ps n) ! (d + k) = page_byte g rs (ps ! i) k))"
  using assms
proof (induction ps arbitrary: n i)
  case Nil
  then show ?case by simp
next
  case (Cons p ps)
  let ?q = "PAGE_SIZE g div 8"
  show ?case
  proof (cases "list_all (\<lambda>b. b = 0) (page_bytes g rs p)")
    case True
    then have eq: "build_pages g rs (p # ps) n
        = (None # fst (build_pages g rs ps n), snd (build_pages g rs ps n))"
      by (simp add: build_pages_Cons del: build_pages.simps(2))
    show ?thesis
    proof (cases i)
      case 0
      with True eq show ?thesis by simp
    next
      case (Suc i')
      with Cons.prems have "i' < length ps" by simp
      from Cons.IH [OF this, of n] show ?thesis
        unfolding eq Suc by (cases "fst (build_pages g rs ps n) ! i'") simp_all
    qed
  next
    case False
    then have eq: "build_pages g rs (p # ps) n
        = (Some n # fst (build_pages g rs ps (n + ?q)),
           page_bytes g rs p @ snd (build_pages g rs ps (n + ?q)))"
      by (simp add: build_pages_Cons del: build_pages.simps(2))
    show ?thesis
    proof (cases i)
      case 0
      have "0 + ?q \<le> length (page_bytes g rs p @ snd (build_pages g rs ps (n + ?q)))
            \<and> (\<forall>k < ?q. (page_bytes g rs p @ snd (build_pages g rs ps (n + ?q))) ! (0 + k)
                    = page_byte g rs p k)"
        by (simp add: length_page_bytes nth_append) (simp add: page_bytes_def)
      then show ?thesis
        unfolding eq 0 by simp
    next
      case (Suc i')
      with Cons.prems have i': "i' < length ps" by simp
      let ?rest = "build_pages g rs ps (n + ?q)"
      show ?thesis
      proof (cases "fst ?rest ! i'")
        case None
        with Cons.IH [OF i', of "n + ?q"] show ?thesis
          unfolding eq Suc by simp
      next
        case (Some off)
        with Cons.IH [OF i', of "n + ?q"]
        obtain d where d: "off = n + ?q + d" "d + ?q \<le> length (snd ?rest)"
          "\<forall>k < ?q. snd ?rest ! (d + k) = page_byte g rs (ps ! i') k"
          by auto
        have b: "\<forall>k < ?q. (page_bytes g rs p @ snd ?rest) ! (?q + d + k) = page_byte g rs (ps ! i') k"
          using d(3) by (simp add: nth_append length_page_bytes)
        have "off = n + (?q + d) \<and> (?q + d) + ?q \<le> length (page_bytes g rs p @ snd ?rest)
              \<and> (\<forall>k < ?q. (page_bytes g rs p @ snd ?rest) ! ((?q + d) + k) = page_byte g rs (ps ! i') k)"
          using d(1,2) b by (simp add: length_page_bytes)
        then show ?thesis
          unfolding eq Suc using Some by (simp only: fst_conv snd_conv nth_Cons_Suc option.case) blast
      qed
    qed
  qed
qed







lemma inRanges_unat: "inRanges ranges c = in_ranges (map unat ranges) (unat c)"
  by (simp add: inRanges_def)



section \<open>The sparse bit set: the serialized form\<close>

lemma split256: "(n::nat) mod 256 + 256 * (n div 256) = n"
  by simp

lemma rd32_le32: "n < 2 ^ 32 \<Longrightarrow> rd32 (le32 n) = n"
proof -
  assume n: "n < 2 ^ 32"
  have d2: "n div 65536 = n div 256 div 256" by (simp add: div_mult2_eq)
  have d3: "n div 16777216 = n div 256 div 256 div 256" by (simp add: div_mult2_eq)
  have small: "n div 256 div 256 div 256 < 256" using n by (simp add: div_mult2_eq less_mult_imp_div_less)
  have "rd32 (le32 n) = n mod 256 + 256 * (n div 256 mod 256 + 256 * (n div 256 div 256 mod 256
           + 256 * (n div 256 div 256 div 256)))"
    using small by (simp add: le32_def unat_of_nat d2 d3)
  also have "\<dots> = n"
    by (simp only: split256)
  finally show ?thesis .
qed

lemma length_le32: "length (le32 n) = 4"
  by (simp add: le32_def)

lemma length_enc_entry: "length (enc_entry e) = 4"
  by (simp add: enc_entry_def length_le32)

lemma dec_enc_entry:
  "(case e of None \<Rightarrow> True | Some off \<Rightarrow> off < 4294967295) \<Longrightarrow> dec_entry (enc_entry e) = e"
  by (cases e) (simp_all add: dec_entry_def enc_entry_def rd32_le32)

lemma dec_table_enc:
  "list_all (\<lambda>e. case e of None \<Rightarrow> True | Some off \<Rightarrow> off < 4294967295) es \<Longrightarrow>
   dec_table (length es) (concat (map enc_entry es) @ rest) = es"
  by (induction es) (simp_all add: length_enc_entry dec_enc_entry)

lemma length_concat_enc: "length (concat (map enc_entry es)) = 4 * length es"
  by (induction es) (simp_all add: length_enc_entry)

lemma rd32_bound: "rd32 bytes < 2 ^ 32"
proof (induction bytes rule: rd32.induct)
  case (1 b0 b1 b2 b3)
  have "unat b0 < 256" "unat b1 < 256" "unat b2 < 256" "unat b3 < 256"
    using unsigned_less [of b0, where 'a = nat] unsigned_less [of b1, where 'a = nat]
      unsigned_less [of b2, where 'a = nat] unsigned_less [of b3, where 'a = nat] by simp_all
  then show ?case by simp
qed simp_all

lemma serialize_roundtrip:
  assumes v: "FORMAT_VERSION g < 2 ^ 32" and fit: "fits32 bs"
  shows "deserialize g (serialize g bs) = Inr bs"
proof -
  let ?n = "length (indices bs)" and ?m = "length (bitmaps bs)"
  let ?tab = "concat (map enc_entry (indices bs))"
  let ?bytes = "serialize g bs"
  from fit have n: "?n < 2 ^ 32" and m: "?m < 2 ^ 32"
    and es: "list_all (\<lambda>e. case e of None \<Rightarrow> True | Some off \<Rightarrow> off < 4294967295) (indices bs)"
    by (simp_all add: fits32_def)
  have bytes: "?bytes = le32 (FORMAT_VERSION g) @ le32 ?n @ le32 ?m @ ?tab @ bitmaps bs"
    by (simp add: serialize_def)
  have len: "length ?bytes = 12 + 4 * ?n + ?m"
    by (simp add: bytes length_le32 length_concat_enc)
  have f1: "take 4 ?bytes = le32 (FORMAT_VERSION g)"
    by (simp add: bytes length_le32)
  have f2: "take 4 (drop 4 ?bytes) = le32 ?n"
    by (simp add: bytes length_le32)
  have f3: "take 4 (drop 8 ?bytes) = le32 ?m"
    by (simp add: bytes length_le32)
  have f4: "drop 12 ?bytes = ?tab @ bitmaps bs"
    by (simp add: bytes length_le32)
  have f5: "take ?m (drop (12 + 4 * ?n) ?bytes) = bitmaps bs"
    by (simp add: bytes length_le32 length_concat_enc)
  have ne: "?bytes \<noteq> []" using len by auto
  have r: "rd32 (le32 (FORMAT_VERSION g)) = FORMAT_VERSION g" "rd32 (le32 ?n) = ?n"
      "rd32 (le32 ?m) = ?m"
    using v n m by (simp_all only: rd32_le32)
  have "deserialize g ?bytes =
      Inr \<lparr>indices = dec_table ?n (?tab @ bitmaps bs), bitmaps = bitmaps bs\<rparr>"
    using ne len by (simp add: deserialize_def Let_def f1 f2 f3 f4 f5 r)
  also have "\<dots> = Inr bs"
    by (simp add: dec_table_enc [OF es])
  finally show ?thesis .
qed

lemma fits32_empty: "fits32 SparseBitSet_empty"
  by (simp add: fits32_def SparseBitSet_empty_def)

lemma length_dec_table: "length (dec_table n bytes) = n"
  by (induction n arbitrary: bytes) simp_all

lemma dec_table_small:
  "list_all (\<lambda>e. case e of None \<Rightarrow> True | Some off \<Rightarrow> off < 4294967295) (dec_table n bytes)"
proof (induction n arbitrary: bytes)
  case 0
  then show ?case by simp
next
  case (Suc n)
  have "rd32 (take 4 bytes) < 2 ^ 32" by (rule rd32_bound)
  then have "case dec_entry (take 4 bytes) of None \<Rightarrow> True | Some off \<Rightarrow> off < 4294967295"
    by (simp add: dec_entry_def Let_def)
  with Suc show ?case by simp
qed

lemma fits32_deserialize:
  assumes "deserialize g bytes = Inr bs"
  shows "fits32 bs"
proof (cases "bytes = []")
  case True
  with assms show ?thesis by (simp add: deserialize_def fits32_empty)
next
  case False
  let ?n = "rd32 (take 4 (drop 4 bytes))" and ?m = "rd32 (take 4 (drop 8 bytes))"
  from assms False have bs: "bs = \<lparr>indices = dec_table ?n (drop 12 bytes),
                     bitmaps = take ?m (drop (12 + 4 * ?n) bytes)\<rparr>"
    by (simp add: deserialize_def Let_def split: if_splits)
  have "?n < 2 ^ 32" "?m < 2 ^ 32" by (rule rd32_bound)+
  then show ?thesis
    unfolding bs fits32_def using dec_table_small [of ?n "drop 12 bytes"]
    by (simp add: length_dec_table)
qed

lemma fits32_new:
  assumes ok: "layout_ok g"
  shows "fits32 (SparseBitSet_new g ranges nRanges)"
proof (cases "nRanges = 0")
  case True
  then show ?thesis by (simp add: SparseBitSet_new_def fits32_empty)
next
  case False
  let ?P = "PAGE_SIZE g"
  let ?rs = "map unat (take (2 * nRanges) ranges)"
  let ?maxVal = "min (last ?rs) (DOMAIN_MAX g)"
  let ?nPages = "(?maxVal + ?P - 1) div ?P"
  let ?b = "build_pages g ?rs [0..<?nPages] 0"
  from ok obtain q where q: "?P = 8 * q" "0 < q" "q \<le> 2 ^ 29"
    by (auto simp: layout_ok_def elim!: dvdE)
  from ok have dm: "?maxVal \<le> 2 ^ 32" by (simp add: layout_ok_def min_le_iff_disj)
  have new: "SparseBitSet_new g ranges nRanges = \<lparr>indices = fst ?b, bitmaps = snd ?b\<rparr>"
    using False by (simp add: SparseBitSet_new_def Let_def split: prod.splits)
  have a: "?nPages * ?P \<le> ?maxVal + ?P - 1"
    by (rule div_times_less_eq_dividend)
  have b: "?nPages * ?P = 8 * (?nPages * q)"
    by (simp only: q(1))
  from ok have p32: "?P \<le> 2 ^ 32" by (simp add: layout_ok_def)
  have c: "8 * (?nPages * q) \<le> ?maxVal + ?P - 1"
    using a unfolding b .
  have np: "?nPages * q \<le> 2 ^ 30"
    using c dm p32 by simp
  with q have np': "?nPages \<le> 2 ^ 30"
    by (metis One_nat_def Suc_leI le_trans mult.right_neutral mult_le_mono2)
  have l1: "length (fst ?b) = ?nPages" by (simp add: build_pages_length)
  have l2: "length (snd ?b) \<le> ?nPages * q"
    using build_pages_bytes_le [of g ?rs "[0..<?nPages]" 0] q by simp
  have offs: "list_all (\<lambda>e. case e of None \<Rightarrow> True | Some off \<Rightarrow> off < 4294967295) (fst ?b)"
    unfolding list_all_length
  proof (intro allI impI)
    fix i assume "i < length (fst ?b)"
    then have i: "i < length [0..<?nPages]" by (simp add: build_pages_length)
    show "case fst ?b ! i of None \<Rightarrow> True | Some off \<Rightarrow> off < 4294967295"
    proof (cases "fst ?b ! i")
      case None
      then show ?thesis by simp
    next
      case (Some off)
      with build_pages_entry [OF i, of g ?rs 0]
      have "off + ?P div 8 \<le> length (snd ?b)" by auto
      with l2 np have "off \<le> 2 ^ 30" by simp
      with Some show ?thesis by simp
    qed
  qed
  show ?thesis
    unfolding new fits32_def using l1 l2 np np' offs by simp
qed

lemma reachable_fits32:
  assumes "reachable g bs" and "layout_ok g"
  shows "fits32 bs"
  using assms
  by (induction rule: reachable.induct) (simp_all add: fits32_empty fits32_new fits32_deserialize)

lemma example_layout_ok: "layout_ok example_layout"
  by (simp add: layout_ok_def example_layout_def)

lemma example_new:
  "SparseBitSet_new example_layout [10, 20, 30, 32] 2 = \<lparr>indices = [None, Some 0, Some 1, Some 2], bitmaps = [0xFC, 0x0F, 0xC0]\<rparr>"
  by (simp add: SparseBitSet_new_def example_layout_def page_bytes_def page_byte_def bit_at_def
      upt_rec [of _ "numeral _"] upt_rec [of _ "Suc _"])

lemma dec_table_numeral:
  "dec_table (numeral k) bytes = dec_entry (take 4 bytes) # dec_table (pred_numeral k) (drop 4 bytes)"
  by (simp add: numeral_eq_Suc)

section \<open>The claims about the sparse bit set\<close>

text \<open>
  Claim C1. For every bit set that a caller can hold (the empty one, one constructed from
  ranges, one read from a blob), reading back the bytes written for it gives a bit set
  with the same answer to \<^verbatim>\<open>get(c)\<close> for every code point \<open>c\<close>; in fact it gives the
  same bit set, and writing the copy gives the same bytes again.
\<close>

theorem serialize_deserialize_roundtrip:
  assumes "layout_ok g" and "reachable g bs"
  shows "deserialize g (serialize g bs) = Inr bs
       \<and> (\<exists>bs'. deserialize g (serialize g bs) = Inr bs'
              \<and> (\<forall>c. get g bs' c = get g bs c)
              \<and> serialize g bs' = serialize g bs)"
proof -
  from assms have "fits32 bs" by (simp add: reachable_fits32)
  moreover from assms(1) have "FORMAT_VERSION g < 2 ^ 32" by (simp add: layout_ok_def)
  ultimately have "deserialize g (serialize g bs) = Inr bs" by (simp add: serialize_roundtrip)
  then show ?thesis by simp
qed

theorem serialize_deserialize_roundtrip_witness:
  "layout_ok example_layout
   \<and> reachable example_layout (SparseBitSet_new example_layout [10, 20, 30, 32] 2)
   \<and> reachable example_layout SparseBitSet_empty
   \<and> serialize example_layout (SparseBitSet_new example_layout [10, 20, 30, 32] 2)
       = [1,0,0,0, 4,0,0,0, 3,0,0,0, 255,255,255,255, 0,0,0,0, 1,0,0,0, 2,0,0,0,
          0xFC, 0x0F, 0xC0]
   \<and> deserialize example_layout
         [1,0,0,0, 4,0,0,0, 3,0,0,0, 255,255,255,255, 0,0,0,0, 1,0,0,0, 2,0,0,0,
          0xFC, 0x0F, 0xC0]
       = Inr (SparseBitSet_new example_layout [10, 20, 30, 32] 2)
   \<and> serialize example_layout SparseBitSet_empty = [1,0,0,0, 0,0,0,0, 0,0,0,0]
   \<and> deserialize example_layout [1,0,0,0, 0,0,0,0, 0,0,0,0] = Inr SparseBitSet_empty"
proof -
  let ?bs = "SparseBitSet_new example_layout [10, 20, 30, 32] 2"
  have r1: "reachable example_layout ?bs"
    by (rule reachable.intros(2)) simp
  have r2: "reachable example_layout SparseBitSet_empty"
    by (rule reachable.intros(1))
  have s1: "serialize example_layout ?bs
       = [1,0,0,0, 4,0,0,0, 3,0,0,0, 255,255,255,255, 0,0,0,0, 1,0,0,0, 2,0,0,0,
          0xFC, 0x0F, 0xC0]"
    unfolding example_new
    by (simp add: serialize_def example_layout_def le32_def enc_entry_def)
  have s2: "serialize example_layout SparseBitSet_empty = [1,0,0,0, 0,0,0,0, 0,0,0,0]"
    by (simp add: serialize_def example_layout_def le32_def SparseBitSet_empty_def)
  from serialize_deserialize_roundtrip [OF example_layout_ok r1]
  have d1: "deserialize example_layout (serialize example_layout ?bs) = Inr ?bs"
    by (rule conjunct1)
  from serialize_deserialize_roundtrip [OF example_layout_ok r2]
  have d2: "deserialize example_layout (serialize example_layout SparseBitSet_empty)
              = Inr SparseBitSet_empty"
    by (rule conjunct1)
  show ?thesis
    using r1 r2 example_layout_ok s1 s2 d1 [unfolded s1] d2 [unfolded s2]
    by (intro conjI)
qed



end
